theory Spec2Isabelle
  imports Main
begin

section \<open>The Zookeeper znode watcher of ndServiceRegistry\<close>

text \<open>
  A shallow embedding of \<^verbatim>\<open>ndServiceRegistry/watcher.py\<close> (class \<^verbatim>\<open>Watcher\<close>).

  \<^item> The attributes of the object (\<^verbatim>\<open>self._path\<close>, \<^verbatim>\<open>self._children\<close>, ...) are the
    \<open>self_\<close> fields of one record; every method takes the record and returns it updated.
  \<^item> The children cache is a Python dict that \<^verbatim>\<open>get()\<close> hands out by reference and that
    the child handler fills in place, so dicts live in an explicit store: \<open>heap\<close> maps an
    address to a dict, \<open>next_addr\<close> is the next unused address, and \<open>self_children\<close>
    and the \<open>children\<close> slot of a snapshot hold addresses.
  \<^item> Everything the object does to the outside is recorded in the same record: the calls
    made on the Zookeeper client (\<open>zk_calls\<close>), the callback invocations with the snapshot
    each one received (\<open>invoked\<close>), and the log records (\<open>logged\<close>).
  \<^item> An exception is a value: a method returns \<open>(Some e, w)\<close> when it raises \<open>e\<close> having
    brought the object to \<open>w\<close>, and \<open>(None, w)\<close> when it returns normally.
\<close>

subsection \<open>Values\<close>

type_synonym exn = string

type_synonym addr = nat

text \<open>A children dict: child name to decoded payload (the inner \<open>None\<close> is Python's None).\<close>

type_synonym 'd dict = "string \<rightharpoonup> 'd option"

text \<open>
  The dict built by \<^verbatim>\<open>get()\<close>, with its four keys. It is a fresh dict on every call and the
  object keeps no reference to it, so it is a value; its \<open>children\<close> slot is the reference
  to the dict object of the cache.
\<close>

record ('d, 's) snapshot =
  stat :: "'s option"
  path :: string
  data :: "'d option"
  children :: addr

subsection \<open>The Zookeeper client\<close>

text \<open>
  The client \<^verbatim>\<open>self._zk\<close> (kazoo) is not part of the program. What it answers at the time
  of a call is a record of functions: \<^verbatim>\<open>exists\<close> gives the node's stat or None,
  \<^verbatim>\<open>get\<close> gives the raw payload and the stat, \<^verbatim>\<open>retry\<close> runs a client function under
  the client's retry policy; each of them may raise (\<open>Inl\<close>). \<^verbatim>\<open>DataWatch\<close> and
  \<^verbatim>\<open>ChildrenWatch\<close> register a handler; the registration is recorded in \<open>zk_calls\<close>, and
  the notifications the client delivers are the events of \<open>fire\<close> below. A notification
  that a client delivers while it registers the handler is such an event too, taken to
  follow the constructor: a handler reads and writes nothing that the rest of the
  constructor reads or writes, but for the order of the records in \<open>zk_calls\<close> and
  \<open>logged\<close>.
\<close>

record 's zk =
  zk_exists :: "string \<Rightarrow> exn + 's option"
  zk_get :: "string \<Rightarrow> exn + (string option \<times> 's)"
  zk_retry :: "(string \<Rightarrow> exn + (string option \<times> 's)) \<Rightarrow> string \<Rightarrow> exn + (string option \<times> 's)"

datatype zk_call =
  DataWatch string
| ChildrenWatch string
| Exists string
| Retry_get string

datatype level = DEBUG | WARNING

subsection \<open>The object\<close>

record ('cb, 'd, 's) watcher =
  self_path :: string
  self_watch_children :: bool
  self_children :: addr
  self_data :: "'d option"
  self_stat :: "'s option"
  self_callbacks :: "'cb list"
  self_state :: bool
  heap :: "addr \<Rightarrow> 'd dict"
  next_addr :: addr
  zk_calls :: "zk_call list"
  invoked :: "('cb \<times> ('d, 's) snapshot) list"
  logged :: "(level \<times> string) list"

text \<open>
  A log record keeps the level and the format string; the formatted arguments are left out.
\<close>

definition log :: "level \<Rightarrow> string \<Rightarrow> ('cb, 'd, 's) watcher \<Rightarrow> ('cb, 'd, 's) watcher" where
  "log lvl msg w = w\<lparr>logged := logged w @ [(lvl, msg)]\<rparr>"

definition zk_called :: "zk_call \<Rightarrow> ('cb, 'd, 's) watcher \<Rightarrow> ('cb, 'd, 's) watcher" where
  "zk_called c w = w\<lparr>zk_calls := zk_calls w @ [c]\<rparr>"

subsection \<open>Public methods\<close>

definition get :: "('cb, 'd, 's) watcher \<Rightarrow> ('d, 's) snapshot" where
  "get w = \<lparr>stat = self_stat w, path = self_path w, data = self_data w,
            children = self_children w\<rparr>"

definition stop :: "('cb, 'd, 's) watcher \<Rightarrow> ('cb, 'd, 's) watcher" where
  "stop w = w\<lparr>self_state := False\<rparr>"

definition start :: "('cb, 'd, 's) watcher \<Rightarrow> ('cb, 'd, 's) watcher" where
  "start w = w\<lparr>self_state := True\<rparr>"

definition state :: "('cb, 'd, 's) watcher \<Rightarrow> bool" where
  "state w = self_state w"

text \<open>
  A callback is a handle \<open>'cb\<close> compared with \<open>=\<close> (Python's \<^verbatim>\<open>==\<close>); calling it is the
  parameter \<open>call\<close>, which says whether the call raises. The call is recorded in \<open>invoked\<close>
  before its outcome is looked at. A callback is an observer: it does not call back into the
  watcher it is registered with.
\<close>

definition invoke ::
  "('cb \<Rightarrow> ('d, 's) snapshot \<Rightarrow> exn option) \<Rightarrow> 'cb \<Rightarrow> ('cb, 'd, 's) watcher
     \<Rightarrow> exn option \<times> ('cb, 'd, 's) watcher" where
  "invoke call callback w =
     (call callback (get w), w\<lparr>invoked := invoked w @ [(callback, get w)]\<rparr>)"

text \<open>The loop of \<^verbatim>\<open>add_callback\<close>: true when it reaches the early return.\<close>

primrec callback_exists :: "'cb \<Rightarrow> 'cb list \<Rightarrow> bool" where
  "callback_exists callback [] = False"
| "callback_exists callback (existing_callback # rest) =
     (if callback = existing_callback then True else callback_exists callback rest)"

definition add_callback ::
  "('cb \<Rightarrow> ('d, 's) snapshot \<Rightarrow> exn option) \<Rightarrow> 'cb \<Rightarrow> ('cb, 'd, 's) watcher
     \<Rightarrow> exn option \<times> ('cb, 'd, 's) watcher" where
  "add_callback call callback w =
     (if callback_exists callback (self_callbacks w)
      then (None, log WARNING ''Callback [%s] already exists. Not triggering again.'' w)
      else invoke call callback (w\<lparr>self_callbacks := self_callbacks w @ [callback]\<rparr>))"

subsection \<open>Dispatch\<close>

text \<open>The loop of \<^verbatim>\<open>_execute_callbacks\<close>; a callback that raises ends it.\<close>

primrec for_callbacks ::
  "('cb \<Rightarrow> ('d, 's) snapshot \<Rightarrow> exn option) \<Rightarrow> 'cb list \<Rightarrow> ('cb, 'd, 's) watcher
     \<Rightarrow> exn option \<times> ('cb, 'd, 's) watcher" where
  "for_callbacks call [] w = (None, w)"
| "for_callbacks call (callback # rest) w =
     (case invoke call callback (log WARNING ''Executing callback %s'' w) of
        (Some e, w') \<Rightarrow> (Some e, w')
      | (None, w') \<Rightarrow> for_callbacks call rest w')"

definition execute_callbacks ::
  "('cb \<Rightarrow> ('d, 's) snapshot \<Rightarrow> exn option) \<Rightarrow> ('cb, 'd, 's) watcher
     \<Rightarrow> exn option \<times> ('cb, 'd, 's) watcher" where
  "execute_callbacks call w0 =
     (let w = log DEBUG ''execute_callbacks triggered'' w0 in
      if \<not> state w
      then (None, log DEBUG ''self.state() is False - not executing callbacks.'' w)
      else for_callbacks call (self_callbacks w) w)"

subsection \<open>The two handlers\<close>

text \<open>
  \<^verbatim>\<open>_update_root_data(data, stat)\<close>. \<open>decode\<close> is \<^verbatim>\<open>funcs.decode\<close>, a function of
  another module and a parameter here: it takes the raw payload (or None) and returns the
  decoded value (or None). Where the fetch raises, the tuple assignment has not happened.
  The test \<^verbatim>\<open>if stat:\<close> is a test for None: a stat is a ZnodeStat tuple, never empty.
\<close>

definition update_root_data ::
  "(string option \<Rightarrow> 'd option) \<Rightarrow> ('cb \<Rightarrow> ('d, 's) snapshot \<Rightarrow> exn option) \<Rightarrow> 's zk
     \<Rightarrow> string option \<Rightarrow> 's option \<Rightarrow> ('cb, 'd, 's) watcher
     \<Rightarrow> exn option \<times> ('cb, 'd, 's) watcher" where
  "update_root_data decode call z data0 stat0 w0 =
     (let w = log DEBUG ''Data change detected'' w0 in
      case (if stat0 \<noteq> None
            then (let w = log DEBUG ''Node is registered.'' w;
                      w = zk_called (Retry_get (self_path w)) w
                  in case zk_retry z (zk_get z) (self_path w) of
                       Inl e \<Rightarrow> Inl (e, w)
                     | Inr (fetched_data, fetched_stat) \<Rightarrow>
                         Inr (fetched_data, w\<lparr>self_stat := Some fetched_stat\<rparr>))
            else Inr (data0, log DEBUG ''Node is not registered.'' w)) of
        Inl (e, w) \<Rightarrow> (Some e, w)
      | Inr (data1, w) \<Rightarrow>
          (let w = w\<lparr>self_data := decode data1\<rparr>;
               w = w\<lparr>self_stat := stat0\<rparr>;
               w = log DEBUG ''Data: %s, Stat: %s'' w
           in execute_callbacks call w))"

text \<open>
  The loop of \<^verbatim>\<open>_update_child_list\<close>: \<open>a\<close> is the address of the local dict
  \<^verbatim>\<open>children\<close>, filled in place; a fetch that raises ends the handler. In
  \<open>update_child_list\<close> the local dict is allocated empty at the next unused address, and
  \<^verbatim>\<open>self._children\<close> is rebound to it after the loop.
\<close>

primrec for_children ::
  "(string option \<Rightarrow> 'd option) \<Rightarrow> 's zk \<Rightarrow> addr \<Rightarrow> string list \<Rightarrow> ('cb, 'd, 's) watcher
     \<Rightarrow> exn option \<times> ('cb, 'd, 's) watcher" where
  "for_children decode z a [] w = (None, w)"
| "for_children decode z a (child # rest) w =
     (let fullpath = self_path w @ ''/'' @ child;
          w = zk_called (Retry_get fullpath) w
      in case zk_retry z (zk_get z) fullpath of
           Inl e \<Rightarrow> (Some e, w)
         | Inr (fetched_data, fetched_stat) \<Rightarrow>
             for_children decode z a rest
               (w\<lparr>heap := (heap w)(a := (heap w a)(child \<mapsto> decode fetched_data))\<rparr>))"

definition update_child_list ::
  "(string option \<Rightarrow> 'd option) \<Rightarrow> ('cb \<Rightarrow> ('d, 's) snapshot \<Rightarrow> exn option) \<Rightarrow> 's zk
     \<Rightarrow> string list \<Rightarrow> ('cb, 'd, 's) watcher \<Rightarrow> exn option \<times> ('cb, 'd, 's) watcher" where
  "update_child_list decode call z data0 w0 =
     (let w = log DEBUG ''New children: %s'' w0;
          a = next_addr w;
          w = w\<lparr>heap := (heap w)(a := Map.empty), next_addr := Suc a\<rparr>
      in case for_children decode z a data0 w of
           (Some e, w) \<Rightarrow> (Some e, w)
         | (None, w) \<Rightarrow> execute_callbacks call (w\<lparr>self_children := a\<rparr>))"

subsection \<open>Construction\<close>

text \<open>
  \<^verbatim>\<open>_begin\<close>: the data watch is registered, then \<^verbatim>\<open>exists\<close> is asked, directly and not
  through \<^verbatim>\<open>retry\<close>, before \<^verbatim>\<open>self._watch_children\<close> is looked at.
\<close>

definition Watcher_begin ::
  "'s zk \<Rightarrow> ('cb, 'd, 's) watcher \<Rightarrow> exn option \<times> ('cb, 'd, 's) watcher" where
  "Watcher_begin z w0 =
     (let w = log DEBUG ''Registering watch on data changes'' w0;
          w = zk_called (DataWatch (self_path w)) w;
          w = zk_called (Exists (self_path w)) w
      in case zk_exists z (self_path w) of
           Inl e \<Rightarrow> (Some e, w)
         | Inr found \<Rightarrow>
             if found \<noteq> None \<and> self_watch_children w
             then (let w = log DEBUG ''Registering watch on child changes'' w
                   in (None, zk_called (ChildrenWatch (self_path w)) w))
             else (None, w))"

text \<open>
  \<^verbatim>\<open>__init__\<close>. The callback is optional (\<^verbatim>\<open>callback=None\<close>, tested by
  \<^verbatim>\<open>if callback:\<close>). The empty dict of \<^verbatim>\<open>self._children\<close> is the object at address 0. When
  the result is \<open>(Some e, w)\<close> the constructor raised and the caller has no object; \<open>w\<close>
  then only shows what had been done.
\<close>

definition Watcher_init ::
  "'s zk \<Rightarrow> string \<Rightarrow> 'cb option \<Rightarrow> bool \<Rightarrow> exn option \<times> ('cb, 'd, 's) watcher" where
  "Watcher_init z path0 callback watch_children =
     Watcher_begin z
       \<lparr>self_path = path0, self_watch_children = watch_children, self_children = 0,
        self_data = None, self_stat = None,
        self_callbacks = (case callback of None \<Rightarrow> [] | Some cb \<Rightarrow> [] @ [cb]),
        self_state = True, heap = (\<lambda>_. Map.empty), next_addr = 1,
        zk_calls = [], invoked = [], logged = []\<rparr>"

subsection \<open>The life of a watcher\<close>

text \<open>
  What can happen to a constructed watcher: the client delivers a notification to a handler
  it has been given (with what the client answers at that time), or the application calls a
  method. A handler that was never registered is never called. An exception leaves the
  object as the raising method left it.
\<close>

datatype ('cb, 's) event =
  Data_change "'s zk" "string option" "'s option"
| Child_change "'s zk" "string list"
| Stop
| Start
| Add_callback 'cb

fun fire ::
  "(string option \<Rightarrow> 'd option) \<Rightarrow> ('cb \<Rightarrow> ('d, 's) snapshot \<Rightarrow> exn option)
     \<Rightarrow> ('cb, 's) event \<Rightarrow> ('cb, 'd, 's) watcher \<Rightarrow> ('cb, 'd, 's) watcher" where
  "fire decode call (Data_change z data0 stat0) w =
     (if DataWatch (self_path w) \<in> set (zk_calls w)
      then snd (update_root_data decode call z data0 stat0 w) else w)"
| "fire decode call (Child_change z data0) w =
     (if ChildrenWatch (self_path w) \<in> set (zk_calls w)
      then snd (update_child_list decode call z data0 w) else w)"
| "fire decode call Stop w = stop w"
| "fire decode call Start w = start w"
| "fire decode call (Add_callback cb) w = snd (add_callback call cb w)"

fun run ::
  "(string option \<Rightarrow> 'd option) \<Rightarrow> ('cb \<Rightarrow> ('d, 's) snapshot \<Rightarrow> exn option)
     \<Rightarrow> ('cb, 's) event list \<Rightarrow> ('cb, 'd, 's) watcher \<Rightarrow> ('cb, 'd, 's) watcher" where
  "run decode call [] w = w"
| "run decode call (ev # evs) w = run decode call evs (fire decode call ev w)"

subsection \<open>Kinds of events and of client calls\<close>

text \<open>
  The comment in \<^verbatim>\<open>_update_root_data\<close> records that, with \<^verbatim>\<open>allow_missing_node\<close>, the
  client passes None as the data of a notification. The predicate asks this only of a
  notification that reports the node missing.
\<close>

fun absent_node_sends_no_data :: "('cb, 's) event \<Rightarrow> bool" where
  "absent_node_sends_no_data (Data_change z data0 None) = (data0 = None)"
| "absent_node_sends_no_data ev = True"

fun is_notification :: "('cb, 's) event \<Rightarrow> bool" where
  "is_notification (Data_change z data0 stat0) = True"
| "is_notification (Child_change z data0) = True"
| "is_notification ev = False"

fun is_fetch :: "zk_call \<Rightarrow> bool" where
  "is_fetch (Retry_get p) = True"
| "is_fetch c = False"

text \<open>
  Two objects that agree on everything but the activity flag, the record of callback
  invocations and the log.
\<close>

definition same_cache :: "('cb, 'd, 's) watcher \<Rightarrow> ('cb, 'd, 's) watcher \<Rightarrow> bool" where
  "same_cache w w' \<longleftrightarrow>
     self_path w = self_path w' \<and> self_watch_children w = self_watch_children w' \<and>
     self_children w = self_children w' \<and> self_data w = self_data w' \<and>
     self_stat w = self_stat w' \<and> self_callbacks w = self_callbacks w' \<and>
     heap w = heap w' \<and> next_addr w = next_addr w' \<and> zk_calls w = zk_calls w'"

text \<open>
  The callbacks that one dispatch over a registry reaches, each given the snapshot \<open>s\<close>:
  every callback in registration order, up to and including the first one that raises.
\<close>

primrec until_raise ::
  "('cb \<Rightarrow> ('d, 's) snapshot \<Rightarrow> exn option) \<Rightarrow> ('d, 's) snapshot \<Rightarrow> 'cb list \<Rightarrow> 'cb list" where
  "until_raise call s [] = []"
| "until_raise call s (callback # rest) =
     callback # (case call callback s of None \<Rightarrow> until_raise call s rest | Some e \<Rightarrow> [])"

subsection \<open>A concrete node\<close>

text \<open>
  The inputs of the concrete checks below. The client \<open>foo_zk\<close> serves the node
  \<^verbatim>\<open>/services/foo\<close> and three children; the stat of a node is its version number. The stat
  that \<^verbatim>\<open>exists\<close> reports for \<^verbatim>\<open>/services/foo\<close> is version 5 and the one \<^verbatim>\<open>get\<close>
  reports is version 6: the node was written in between. The client \<open>down_zk\<close> has lost
  its connection. The decoder \<open>plain_decode\<close> hands the payload on as it is, and the
  callbacks are numbers that \<open>quiet\<close> runs without raising.
\<close>

definition foo_zk :: "nat zk" where
  "foo_zk =
     \<lparr>zk_exists = (\<lambda>p. if p = ''/services/foo'' then Inr (Some 5) else Inr None),
      zk_get = (\<lambda>p. if p = ''/services/foo'' then Inr (Some ''env=prod'', 6)
                     else if p = ''/services/foo/node1:22'' then Inr (Some ''w=1'', 1)
                     else if p = ''/services/foo/node2:22'' then Inr (Some ''w=2'', 1)
                     else if p = ''/services/foo/node3:80'' then Inr (Some ''w=3'', 1)
                     else Inl ''NoNodeError''),
      zk_retry = (\<lambda>f p. f p)\<rparr>"

definition down_zk :: "nat zk" where
  "down_zk =
     \<lparr>zk_exists = (\<lambda>p. Inl ''ConnectionLoss''),
      zk_get = (\<lambda>p. Inl ''ConnectionLoss''),
      zk_retry = (\<lambda>f p. f p)\<rparr>"

definition plain_decode :: "string option \<Rightarrow> string option" where
  "plain_decode raw = raw"

definition quiet :: "nat \<Rightarrow> (string, nat) snapshot \<Rightarrow> exn option" where
  "quiet cb s = None"

definition foo_watcher :: "(nat, string, nat) watcher" where
  "foo_watcher = snd (Watcher_init foo_zk ''/services/foo'' None True)"

text \<open>The watcher of \<^verbatim>\<open>/services/foo\<close> after a first child notification.\<close>

definition foo_watcher_with_children :: "(nat, string, nat) watcher" where
  "foo_watcher_with_children =
     snd (update_child_list plain_decode quiet foo_zk [''node1:22'', ''node2:22''] foo_watcher)"

section \<open>Basic facts\<close>

subsection \<open>What each step leaves alone\<close>

lemma log_simps [simp]:
  "self_path (log l m w) = self_path w"
  "self_watch_children (log l m w) = self_watch_children w"
  "self_children (log l m w) = self_children w"
  "self_data (log l m w) = self_data w"
  "self_stat (log l m w) = self_stat w"
  "self_callbacks (log l m w) = self_callbacks w"
  "self_state (log l m w) = self_state w"
  "heap (log l m w) = heap w"
  "next_addr (log l m w) = next_addr w"
  "zk_calls (log l m w) = zk_calls w"
  "invoked (log l m w) = invoked w"
  "logged (log l m w) = logged w @ [(l, m)]"
  by (simp_all add: log_def)

lemma zk_called_simps [simp]:
  "self_path (zk_called c w) = self_path w"
  "self_watch_children (zk_called c w) = self_watch_children w"
  "self_children (zk_called c w) = self_children w"
  "self_data (zk_called c w) = self_data w"
  "self_stat (zk_called c w) = self_stat w"
  "self_callbacks (zk_called c w) = self_callbacks w"
  "self_state (zk_called c w) = self_state w"
  "heap (zk_called c w) = heap w"
  "next_addr (zk_called c w) = next_addr w"
  "zk_calls (zk_called c w) = zk_calls w @ [c]"
  "invoked (zk_called c w) = invoked w"
  "logged (zk_called c w) = logged w"
  by (simp_all add: zk_called_def)

lemma get_simps [simp]:
  "stat (get w) = self_stat w"
  "path (get w) = self_path w"
  "data (get w) = self_data w"
  "children (get w) = self_children w"
  by (simp_all add: get_def)

lemma callback_exists_iff: "callback_exists cb cbs \<longleftrightarrow> cb \<in> set cbs"
  by (induction cbs) auto

lemma invoke_simps [simp]:
  "fst (invoke call cb w) = call cb (get w)"
  "self_path (snd (invoke call cb w)) = self_path w"
  "self_watch_children (snd (invoke call cb w)) = self_watch_children w"
  "self_children (snd (invoke call cb w)) = self_children w"
  "self_data (snd (invoke call cb w)) = self_data w"
  "self_stat (snd (invoke call cb w)) = self_stat w"
  "self_callbacks (snd (invoke call cb w)) = self_callbacks w"
  "self_state (snd (invoke call cb w)) = self_state w"
  "heap (snd (invoke call cb w)) = heap w"
  "next_addr (snd (invoke call cb w)) = next_addr w"
  "zk_calls (snd (invoke call cb w)) = zk_calls w"
  "invoked (snd (invoke call cb w)) = invoked w @ [(cb, get w)]"
  "logged (snd (invoke call cb w)) = logged w"
  by (simp_all add: invoke_def)

lemma for_callbacks_frame [simp]:
  "self_path (snd (for_callbacks call cbs w)) = self_path w"
  "self_watch_children (snd (for_callbacks call cbs w)) = self_watch_children w"
  "self_children (snd (for_callbacks call cbs w)) = self_children w"
  "self_data (snd (for_callbacks call cbs w)) = self_data w"
  "self_stat (snd (for_callbacks call cbs w)) = self_stat w"
  "self_callbacks (snd (for_callbacks call cbs w)) = self_callbacks w"
  "self_state (snd (for_callbacks call cbs w)) = self_state w"
  "heap (snd (for_callbacks call cbs w)) = heap w"
  "next_addr (snd (for_callbacks call cbs w)) = next_addr w"
  "zk_calls (snd (for_callbacks call cbs w)) = zk_calls w"
  by (induction cbs arbitrary: w; simp add: invoke_def log_def split: option.splits)+

lemma execute_callbacks_frame [simp]:
  "self_path (snd (execute_callbacks call w)) = self_path w"
  "self_watch_children (snd (execute_callbacks call w)) = self_watch_children w"
  "self_children (snd (execute_callbacks call w)) = self_children w"
  "self_data (snd (execute_callbacks call w)) = self_data w"
  "self_stat (snd (execute_callbacks call w)) = self_stat w"
  "self_callbacks (snd (execute_callbacks call w)) = self_callbacks w"
  "self_state (snd (execute_callbacks call w)) = self_state w"
  "heap (snd (execute_callbacks call w)) = heap w"
  "next_addr (snd (execute_callbacks call w)) = next_addr w"
  "zk_calls (snd (execute_callbacks call w)) = zk_calls w"
  by (simp_all add: execute_callbacks_def Let_def state_def)

lemma execute_callbacks_paused:
  "\<not> self_state w \<Longrightarrow> invoked (snd (execute_callbacks call w)) = invoked w"
  by (simp add: execute_callbacks_def Let_def state_def)


lemma for_children_frame [simp]:
  "self_path (snd (for_children decode z a names w)) = self_path w"
  "self_watch_children (snd (for_children decode z a names w)) = self_watch_children w"
  "self_children (snd (for_children decode z a names w)) = self_children w"
  "self_data (snd (for_children decode z a names w)) = self_data w"
  "self_stat (snd (for_children decode z a names w)) = self_stat w"
  "self_callbacks (snd (for_children decode z a names w)) = self_callbacks w"
  "self_state (snd (for_children decode z a names w)) = self_state w"
  "next_addr (snd (for_children decode z a names w)) = next_addr w"
  "invoked (snd (for_children decode z a names w)) = invoked w"
  "logged (snd (for_children decode z a names w)) = logged w"
  by (induction names arbitrary: w; simp add: Let_def split: sum.splits)+

lemma for_children_heap_other:
  "b \<noteq> a \<Longrightarrow> heap (snd (for_children decode z a names w)) b = heap w b"
  by (induction names arbitrary: w) (simp_all add: Let_def split: sum.splits)

lemma for_children_calls:
  "\<exists>n \<le> length names. zk_calls (snd (for_children decode z a names w)) =
     zk_calls w @ map (\<lambda>c. Retry_get (self_path w @ ''/'' @ c)) (take n names)"
proof (induction names arbitrary: w)
  case Nil
  show ?case by simp
next
  case (Cons child rest)
  let ?p = "self_path w @ ''/'' @ child"
  let ?w = "zk_called (Retry_get ?p) w"
  show ?case
  proof (cases "zk_retry z (zk_get z) ?p")
    case (Inl e)
    then have "zk_calls (snd (for_children decode z a (child # rest) w)) =
        zk_calls w @ map (\<lambda>c. Retry_get (self_path w @ ''/'' @ c)) (take 1 (child # rest))"
      by (simp add: Let_def)
    then show ?thesis by (intro exI [of _ 1]) simp
  next
    case (Inr r)
    obtain d s where r: "r = (d, s)" by (cases r)
    let ?w' = "?w\<lparr>heap := (heap ?w)(a := (heap ?w a)(child \<mapsto> decode d))\<rparr>"
    from Cons.IH [of ?w'] obtain n where n: "n \<le> length rest"
      "zk_calls (snd (for_children decode z a rest ?w')) =
         zk_calls ?w' @ map (\<lambda>c. Retry_get (self_path ?w' @ ''/'' @ c)) (take n rest)"
      by blast
    have "zk_calls (snd (for_children decode z a (child # rest) w)) =
        zk_calls w @ map (\<lambda>c. Retry_get (self_path w @ ''/'' @ c)) (take (Suc n) (child # rest))"
      using Inr r n(2) by (simp add: Let_def)
    with n(1) show ?thesis by (intro exI [of _ "Suc n"]) simp
  qed
qed

lemma for_children_ok:
  assumes "\<forall>c \<in> set names. \<exists>r. zk_retry z (zk_get z) (self_path w @ ''/'' @ c) = Inr r"
  shows "fst (for_children decode z a names w) = None \<and>
         zk_calls (snd (for_children decode z a names w)) =
           zk_calls w @ map (\<lambda>c. Retry_get (self_path w @ ''/'' @ c)) names \<and>
         (\<forall>c. heap (snd (for_children decode z a names w)) a c =
           (if c \<in> set names
            then Some (decode (fst (projr (zk_retry z (zk_get z) (self_path w @ ''/'' @ c)))))
            else heap w a c))"
  using assms
proof (induction names arbitrary: w)
  case Nil
  show ?case by simp
next
  case (Cons child rest)
  let ?p = "self_path w @ ''/'' @ child"
  let ?w = "zk_called (Retry_get ?p) w"
  from Cons.prems obtain r where "zk_retry z (zk_get z) ?p = Inr r" by auto
  then obtain d s where f: "zk_retry z (zk_get z) ?p = Inr (d, s)" by (cases r) simp
  let ?w' = "?w\<lparr>heap := (heap ?w)(a := (heap ?w a)(child \<mapsto> decode d))\<rparr>"
  have step: "for_children decode z a (child # rest) w = for_children decode z a rest ?w'"
    using f by (simp add: Let_def)
  have "\<forall>c \<in> set rest. \<exists>r. zk_retry z (zk_get z) (self_path ?w' @ ''/'' @ c) = Inr r"
    using Cons.prems by simp
  from Cons.IH [OF this] show ?case
    unfolding step using f by auto
qed

lemma update_root_data_frame [simp]:
  "self_path (snd (update_root_data decode call z d st w)) = self_path w"
  "self_watch_children (snd (update_root_data decode call z d st w)) = self_watch_children w"
  "self_children (snd (update_root_data decode call z d st w)) = self_children w"
  "self_callbacks (snd (update_root_data decode call z d st w)) = self_callbacks w"
  "self_state (snd (update_root_data decode call z d st w)) = self_state w"
  "heap (snd (update_root_data decode call z d st w)) = heap w"
  "next_addr (snd (update_root_data decode call z d st w)) = next_addr w"
  by (simp_all add: update_root_data_def Let_def split: sum.splits prod.splits)

lemma update_child_list_unfold:
  "update_child_list decode call z names w =
     (let r = for_children decode z (next_addr w) names
                ((log DEBUG ''New children: %s'' w)
                   \<lparr>heap := (heap w)(next_addr w := Map.empty), next_addr := Suc (next_addr w)\<rparr>)
      in case fst r of
           Some e \<Rightarrow> (Some e, snd r)
         | None \<Rightarrow> execute_callbacks call ((snd r)\<lparr>self_children := next_addr w\<rparr>))"
  by (simp add: update_child_list_def Let_def split: prod.splits option.splits)

lemma update_child_list_frame [simp]:
  "self_path (snd (update_child_list decode call z names w)) = self_path w"
  "self_watch_children (snd (update_child_list decode call z names w)) = self_watch_children w"
  "self_data (snd (update_child_list decode call z names w)) = self_data w"
  "self_stat (snd (update_child_list decode call z names w)) = self_stat w"
  "self_callbacks (snd (update_child_list decode call z names w)) = self_callbacks w"
  "self_state (snd (update_child_list decode call z names w)) = self_state w"
  "next_addr (snd (update_child_list decode call z names w)) = Suc (next_addr w)"
  by (simp_all add: update_child_list_unfold Let_def split: option.splits)

lemma update_child_list_heap_old:
  "b \<noteq> next_addr w \<Longrightarrow> heap (snd (update_child_list decode call z names w)) b = heap w b"
  by (simp add: update_child_list_unfold Let_def for_children_heap_other split: option.splits)

lemma update_child_list_children:
  "self_children (snd (update_child_list decode call z names w)) = self_children w \<or>
   self_children (snd (update_child_list decode call z names w)) = next_addr w"
  by (simp add: update_child_list_unfold Let_def split: option.splits)

lemma add_callback_frame [simp]:
  "self_path (snd (add_callback call cb w)) = self_path w"
  "self_watch_children (snd (add_callback call cb w)) = self_watch_children w"
  "self_children (snd (add_callback call cb w)) = self_children w"
  "self_data (snd (add_callback call cb w)) = self_data w"
  "self_stat (snd (add_callback call cb w)) = self_stat w"
  "self_state (snd (add_callback call cb w)) = self_state w"
  "heap (snd (add_callback call cb w)) = heap w"
  "next_addr (snd (add_callback call cb w)) = next_addr w"
  "zk_calls (snd (add_callback call cb w)) = zk_calls w"
  by (simp_all add: add_callback_def)

lemma stop_start_simps [simp]:
  "self_path (stop w) = self_path w" "self_path (start w) = self_path w"
  "self_watch_children (stop w) = self_watch_children w"
  "self_watch_children (start w) = self_watch_children w"
  "self_children (stop w) = self_children w" "self_children (start w) = self_children w"
  "self_data (stop w) = self_data w" "self_data (start w) = self_data w"
  "self_stat (stop w) = self_stat w" "self_stat (start w) = self_stat w"
  "self_callbacks (stop w) = self_callbacks w" "self_callbacks (start w) = self_callbacks w"
  "self_state (stop w) = False" "self_state (start w) = True"
  "heap (stop w) = heap w" "heap (start w) = heap w"
  "next_addr (stop w) = next_addr w" "next_addr (start w) = next_addr w"
  "zk_calls (stop w) = zk_calls w" "zk_calls (start w) = zk_calls w"
  "invoked (stop w) = invoked w" "invoked (start w) = invoked w"
  "logged (stop w) = logged w" "logged (start w) = logged w"
  by (simp_all add: stop_def start_def)

lemma fire_path [simp]: "self_path (fire decode call ev w) = self_path w"
  by (cases ev) simp_all

lemma run_path [simp]: "self_path (run decode call evs w) = self_path w"
  by (induction evs arbitrary: w) simp_all

lemma fire_next_addr: "next_addr w \<le> next_addr (fire decode call ev w)"
  by (cases ev) simp_all

lemma fire_heap_old: "b < next_addr w \<Longrightarrow> heap (fire decode call ev w) b = heap w b"
  by (cases ev) (simp_all add: update_child_list_heap_old)

lemma fire_children_allocated:
  "self_children w < next_addr w
     \<Longrightarrow> self_children (fire decode call ev w) < next_addr (fire decode call ev w)"
proof (cases ev)
  case (Child_change z names)
  assume "self_children w < next_addr w"
  with update_child_list_children [of decode call z names w] Child_change
  show ?thesis by auto
qed simp_all

lemma run_heap_old:
  "b < next_addr w \<Longrightarrow> heap (run decode call evs w) b = heap w b"
proof (induction evs arbitrary: w)
  case Nil
  show ?case by simp
next
  case (Cons ev evs)
  from Cons.prems fire_next_addr [of w decode call ev]
  have "b < next_addr (fire decode call ev w)" by simp
  from Cons.IH [OF this] show ?case
    using Cons.prems by (simp add: fire_heap_old)
qed

lemma run_children_allocated:
  "self_children w < next_addr w
     \<Longrightarrow> self_children (run decode call evs w) < next_addr (run decode call evs w)"
  by (induction evs arbitrary: w) (simp_all add: fire_children_allocated)

lemma Watcher_begin_frame [simp]:
  "self_path (snd (Watcher_begin z w)) = self_path w"
  "self_watch_children (snd (Watcher_begin z w)) = self_watch_children w"
  "self_children (snd (Watcher_begin z w)) = self_children w"
  "self_data (snd (Watcher_begin z w)) = self_data w"
  "self_stat (snd (Watcher_begin z w)) = self_stat w"
  "self_callbacks (snd (Watcher_begin z w)) = self_callbacks w"
  "self_state (snd (Watcher_begin z w)) = self_state w"
  "heap (snd (Watcher_begin z w)) = heap w"
  "next_addr (snd (Watcher_begin z w)) = next_addr w"
  "invoked (snd (Watcher_begin z w)) = invoked w"
  by (simp_all add: Watcher_begin_def Let_def split: sum.splits)

lemma Watcher_init_fields [simp]:
  "self_path (snd (Watcher_init z p cb wc)) = p"
  "self_watch_children (snd (Watcher_init z p cb wc)) = wc"
  "self_children (snd (Watcher_init z p cb wc)) = 0"
  "self_data (snd (Watcher_init z p cb wc)) = None"
  "self_stat (snd (Watcher_init z p cb wc)) = None"
  "self_callbacks (snd (Watcher_init z p cb wc)) = (case cb of None \<Rightarrow> [] | Some c \<Rightarrow> [c])"
  "self_state (snd (Watcher_init z p cb wc)) = True"
  "heap (snd (Watcher_init z p cb wc)) = (\<lambda>_. Map.empty)"
  "next_addr (snd (Watcher_init z p cb wc)) = 1"
  "invoked (snd (Watcher_init z p cb wc)) = []"
  by (simp_all add: Watcher_init_def split: option.splits)

lemma update_root_data_keeps_absence:
  assumes "decode None = None" and "st = None \<longrightarrow> d = None"
    and "self_stat w = None \<longrightarrow> self_data w = None"
  shows "self_stat (snd (update_root_data decode call z d st w)) = None \<longrightarrow>
         self_data (snd (update_root_data decode call z d st w)) = None"
  using assms
  by (auto simp add: update_root_data_def Let_def split: sum.splits prod.splits)

lemma fire_keeps_absence:
  assumes "decode None = None" and "absent_node_sends_no_data ev"
    and "self_stat w = None \<longrightarrow> self_data w = None"
  shows "self_stat (fire decode call ev w) = None \<longrightarrow> self_data (fire decode call ev w) = None"
proof (cases ev)
  case (Data_change z d st)
  with assms(2) have "st = None \<longrightarrow> d = None" by (cases st) simp_all
  from update_root_data_keeps_absence [where decode = decode, OF assms(1) this assms(3)]
    Data_change assms(3)
  show ?thesis by simp
qed (use assms(3) in simp_all)

lemma run_keeps_absence:
  assumes "decode None = None" and "\<forall>ev \<in> set evs. absent_node_sends_no_data ev"
    and "self_stat w = None \<longrightarrow> self_data w = None"
  shows "self_stat (run decode call evs w) = None \<longrightarrow> self_data (run decode call evs w) = None"
  using assms(2,3)
proof (induction evs arbitrary: w)
  case Nil
  then show ?case by simp
next
  case (Cons ev evs)
  from Cons.prems have "absent_node_sends_no_data ev" by simp
  from fire_keeps_absence [where decode = decode, OF assms(1) this Cons.prems(2)]
  have "self_stat (fire decode call ev w) = None \<longrightarrow> self_data (fire decode call ev w) = None" .
  with Cons.IH [of "fire decode call ev w"] Cons.prems(1) show ?case by simp
qed

lemma update_root_data_paused:
  "\<not> self_state w \<Longrightarrow> invoked (snd (update_root_data decode call z d st w)) = invoked w"
  by (simp add: update_root_data_def Let_def execute_callbacks_paused split: sum.splits prod.splits)

lemma update_child_list_paused:
  "\<not> self_state w \<Longrightarrow> invoked (snd (update_child_list decode call z names w)) = invoked w"
  by (simp add: update_child_list_unfold Let_def execute_callbacks_paused split: option.splits)

lemma fire_paused:
  "is_notification ev \<Longrightarrow> \<not> self_state w \<Longrightarrow>
     invoked (fire decode call ev w) = invoked w \<and> \<not> self_state (fire decode call ev w)"
  by (cases ev) (simp_all add: update_root_data_paused update_child_list_paused)

lemma run_paused:
  "\<forall>ev \<in> set evs. is_notification ev \<Longrightarrow> \<not> self_state w \<Longrightarrow>
     invoked (run decode call evs w) = invoked w"
proof (induction evs arbitrary: w)
  case Nil
  show ?case by simp
next
  case (Cons ev evs)
  from Cons.prems have n: "is_notification ev" by simp
  from fire_paused [OF n Cons.prems(2)]
  have "invoked (fire decode call ev w) = invoked w" "\<not> self_state (fire decode call ev w)"
    by simp_all
  with Cons.IH [of "fire decode call ev w"] Cons.prems(1) show ?case by simp
qed

lemma same_cache_refl [simp]: "same_cache w w"
  by (simp add: same_cache_def)

lemma same_cache_stop [simp]: "same_cache (stop w) w"
  by (simp add: same_cache_def)

lemma same_cache_get: "same_cache w w' \<Longrightarrow> get w = get w'"
  by (simp add: same_cache_def get_def)

lemma for_children_same_cache:
  "same_cache w w' \<Longrightarrow>
     fst (for_children decode z a names w) = fst (for_children decode z a names w') \<and>
     same_cache (snd (for_children decode z a names w)) (snd (for_children decode z a names w'))"
proof (induction names arbitrary: w w')
  case Nil
  then show ?case by simp
next
  case (Cons child rest)
  then have p: "self_path w' = self_path w" by (simp add: same_cache_def)
  let ?p = "self_path w @ ''/'' @ child"
  show ?case
  proof (cases "zk_retry z (zk_get z) ?p")
    case (Inl e)
    with Cons.prems p show ?thesis by (simp add: Let_def same_cache_def)
  next
    case (Inr r)
    obtain d s where r: "r = (d, s)" by (cases r)
    let ?u = "\<lambda>w. (zk_called (Retry_get ?p) w)
                 \<lparr>heap := (heap (zk_called (Retry_get ?p) w))
                    (a := (heap (zk_called (Retry_get ?p) w) a)(child \<mapsto> decode d))\<rparr>"
    have "same_cache (?u w) (?u w')" using Cons.prems by (simp add: same_cache_def)
    from Cons.IH [OF this] show ?thesis using Inr r p by (simp add: Let_def)
  qed
qed

lemma update_root_data_same_cache:
  "same_cache w w' \<Longrightarrow>
     same_cache (snd (update_root_data decode call z d st w))
                (snd (update_root_data decode call z d st w'))"
  unfolding same_cache_def
  by (simp add: update_root_data_def Let_def split: sum.splits prod.splits)

lemma update_child_list_same_cache:
  assumes "same_cache w w'"
  shows "same_cache (snd (update_child_list decode call z names w))
                    (snd (update_child_list decode call z names w'))"
proof -
  let ?i = "\<lambda>w. (log DEBUG ''New children: %s'' w)
                 \<lparr>heap := (heap w)(next_addr w := Map.empty), next_addr := Suc (next_addr w)\<rparr>"
  have n: "next_addr w' = next_addr w" using assms by (simp add: same_cache_def)
  have "same_cache (?i w) (?i w')" using assms by (simp add: same_cache_def)
  from for_children_same_cache [OF this, of decode z "next_addr w" names]
  show ?thesis
    by (simp add: update_child_list_unfold Let_def n same_cache_def split: option.splits)
qed

lemma fire_same_cache:
  "is_notification ev \<Longrightarrow> same_cache w w' \<Longrightarrow>
     same_cache (fire decode call ev w) (fire decode call ev w')"
proof (cases ev)
  case (Data_change z d st)
  assume "same_cache w w'"
  then show ?thesis using Data_change update_root_data_same_cache [of w w' decode call z d st]
    by (simp add: same_cache_def)
next
  case (Child_change z names)
  assume "same_cache w w'"
  then show ?thesis using Child_change update_child_list_same_cache [of w w' decode call z names]
    by (simp add: same_cache_def)
qed simp_all

lemma run_same_cache:
  "\<forall>ev \<in> set evs. is_notification ev \<Longrightarrow> same_cache w w' \<Longrightarrow>
     same_cache (run decode call evs w) (run decode call evs w')"
  by (induction evs arbitrary: w w') (simp_all add: fire_same_cache)

lemma count_list_map_inj:
  "inj f \<Longrightarrow> distinct xs \<Longrightarrow> count_list (map f xs) (f x) = (if x \<in> set xs then 1 else 0)"
  by (induction xs) (auto simp add: inj_eq)

lemma inj_fullpath: "inj (\<lambda>c. Retry_get (p @ ''/'' @ c))"
  by (rule injI) simp

subsection \<open>What a dispatch invokes\<close>

lemma get_log [simp]: "get (log l m w) = get w"
  by (simp add: get_def)

lemma get_invoke [simp]: "get (snd (invoke call cb w)) = get w"
  by (simp add: get_def)

lemma for_callbacks_invoked:
  "invoked (snd (for_callbacks call cbs w)) =
     invoked w @ map (\<lambda>cb. (cb, get w)) (until_raise call (get w) cbs)"
proof (induction cbs arbitrary: w)
  case Nil
  show ?case by simp
next
  case (Cons cb cbs)
  let ?w = "log WARNING ''Executing callback %s'' w"
  show ?case
  proof (cases "call cb (get w)")
    case None
    then have "for_callbacks call (cb # cbs) w = for_callbacks call cbs (snd (invoke call cb ?w))"
      by (simp add: invoke_def)
    with Cons.IH [of "snd (invoke call cb ?w)"] None show ?thesis by simp
  next
    case (Some e)
    then show ?thesis by (simp add: invoke_def)
  qed
qed

lemma get_for_callbacks [simp]: "get (snd (for_callbacks call cbs w)) = get w"
  by (simp add: get_def)

lemma get_execute_callbacks [simp]: "get (snd (execute_callbacks call w)) = get w"
  by (simp add: get_def)

lemma execute_callbacks_active:
  "self_state w \<Longrightarrow>
     invoked (snd (execute_callbacks call w)) =
       invoked w @ map (\<lambda>cb. (cb, get w)) (until_raise call (get w) (self_callbacks w))"
  by (simp add: execute_callbacks_def Let_def state_def for_callbacks_invoked)

lemma update_root_data_dispatch_missing:
  assumes "self_state w"
  shows "invoked (snd (update_root_data decode call z d None w)) =
     invoked w @ map (\<lambda>cb. (cb, get (snd (update_root_data decode call z d None w))))
       (until_raise call (get (snd (update_root_data decode call z d None w))) (self_callbacks w))"
proof -
  let ?c = "log DEBUG ''Data: %s, Stat: %s''
     ((log DEBUG ''Node is not registered.'' (log DEBUG ''Data change detected'' w))
        \<lparr>self_data := decode d, self_stat := None\<rparr>)"
  have r: "update_root_data decode call z d None w = execute_callbacks call ?c"
    by (simp add: update_root_data_def Let_def)
  have "self_state ?c" using assms by simp
  from execute_callbacks_active [OF this, of call] show ?thesis
    unfolding r by simp
qed

lemma update_root_data_dispatch_present:
  assumes "self_state w" and "zk_retry z (zk_get z) (self_path w) = Inr (d', s')"
  shows "invoked (snd (update_root_data decode call z d (Some st) w)) =
     invoked w @ map (\<lambda>cb. (cb, get (snd (update_root_data decode call z d (Some st) w))))
       (until_raise call (get (snd (update_root_data decode call z d (Some st) w)))
          (self_callbacks w))"
proof -
  let ?c = "log DEBUG ''Data: %s, Stat: %s''
     ((zk_called (Retry_get (self_path w))
         (log DEBUG ''Node is registered.'' (log DEBUG ''Data change detected'' w)))
        \<lparr>self_stat := Some s', self_data := decode d', self_stat := Some st\<rparr>)"
  have r: "update_root_data decode call z d (Some st) w = execute_callbacks call ?c"
    using assms(2) by (simp add: update_root_data_def Let_def)
  have "self_state ?c" using assms(1) by simp
  from execute_callbacks_active [OF this, of call] show ?thesis
    unfolding r by simp
qed

lemma update_child_list_dispatch:
  assumes "self_state w"
    and "\<forall>c \<in> set names. \<exists>r. zk_retry z (zk_get z) (self_path w @ ''/'' @ c) = Inr r"
  shows "invoked (snd (update_child_list decode call z names w)) =
     invoked w @ map (\<lambda>cb. (cb, get (snd (update_child_list decode call z names w))))
       (until_raise call (get (snd (update_child_list decode call z names w))) (self_callbacks w))"
proof -
  let ?w1 = "(log DEBUG ''New children: %s'' w)
               \<lparr>heap := (heap w)(next_addr w := Map.empty), next_addr := Suc (next_addr w)\<rparr>"
  let ?r = "for_children decode z (next_addr w) names ?w1"
  let ?c = "(snd ?r)\<lparr>self_children := next_addr w\<rparr>"
  have "\<forall>c \<in> set names. \<exists>r. zk_retry z (zk_get z) (self_path ?w1 @ ''/'' @ c) = Inr r"
    using assms(2) by simp
  from for_children_ok [OF this, of decode "next_addr w"] have ok: "fst ?r = None" by simp
  have r: "update_child_list decode call z names w = execute_callbacks call ?c"
    using ok by (simp add: update_child_list_unfold Let_def)
  have "self_state ?c" using assms(1) by simp
  from execute_callbacks_active [OF this, of call] show ?thesis
    unfolding r by simp
qed

lemma fire_notification_callbacks:
  "is_notification ev \<Longrightarrow> self_callbacks (fire decode call ev w) = self_callbacks w"
  by (cases ev) simp_all

lemma run_notifications_callbacks:
  "\<forall>ev \<in> set evs. is_notification ev \<Longrightarrow>
     self_callbacks (run decode call evs w) = self_callbacks w"
  by (induction evs arbitrary: w) (simp_all add: fire_notification_callbacks)

lemma fire_notification_state:
  "is_notification ev \<Longrightarrow> self_state (fire decode call ev w) = self_state w"
  by (cases ev) simp_all

lemma run_notifications_state:
  "\<forall>ev \<in> set evs. is_notification ev \<Longrightarrow>
     self_state (run decode call evs w) = self_state w"
  by (induction evs arbitrary: w) (simp_all add: fire_notification_state)

lemma get_start [simp]: "get (start w) = get w"
  by (simp add: get_def)

subsection \<open>What the data handler caches\<close>

lemma update_root_data_present:
  "zk_retry z (zk_get z) (self_path w) = Inr (d, s') \<Longrightarrow>
     self_data (snd (update_root_data decode call z d0 (Some s) w)) = decode d \<and>
     self_stat (snd (update_root_data decode call z d0 (Some s) w)) = Some s"
  by (simp add: update_root_data_def Let_def)

lemma update_root_data_fetch_raises:
  "zk_retry z (zk_get z) (self_path w) = Inl e \<Longrightarrow>
     fst (update_root_data decode call z d0 (Some s) w) = Some e \<and>
     self_data (snd (update_root_data decode call z d0 (Some s) w)) = self_data w \<and>
     self_stat (snd (update_root_data decode call z d0 (Some s) w)) = self_stat w \<and>
     invoked (snd (update_root_data decode call z d0 (Some s) w)) = invoked w"
  by (simp add: update_root_data_def Let_def)

lemma update_root_data_missing:
  "self_data (snd (update_root_data decode call z d0 None w)) = decode d0 \<and>
   self_stat (snd (update_root_data decode call z d0 None w)) = None"
  by (simp add: update_root_data_def Let_def)

subsection \<open>Calls on the client\<close>

lemma for_children_no_registration:
  "filter (\<lambda>c. \<not> is_fetch c) (zk_calls (snd (for_children decode z a names w))) =
   filter (\<lambda>c. \<not> is_fetch c) (zk_calls w)"
proof -
  from for_children_calls [of names decode z a w] obtain n where
    "zk_calls (snd (for_children decode z a names w)) =
       zk_calls w @ map (\<lambda>c. Retry_get (self_path w @ ''/'' @ c)) (take n names)"
    by blast
  then show ?thesis by (simp add: filter_map comp_def)
qed

lemma update_root_data_no_registration:
  "filter (\<lambda>c. \<not> is_fetch c) (zk_calls (snd (update_root_data decode call z d st w))) =
   filter (\<lambda>c. \<not> is_fetch c) (zk_calls w)"
  by (simp add: update_root_data_def Let_def split: sum.splits prod.splits)

lemma update_child_list_no_registration:
  "filter (\<lambda>c. \<not> is_fetch c) (zk_calls (snd (update_child_list decode call z names w))) =
   filter (\<lambda>c. \<not> is_fetch c) (zk_calls w)"
  by (simp add: update_child_list_unfold Let_def for_children_no_registration
        split: option.splits)

lemma fire_no_registration:
  "filter (\<lambda>c. \<not> is_fetch c) (zk_calls (fire decode call ev w)) =
   filter (\<lambda>c. \<not> is_fetch c) (zk_calls w)"
  by (cases ev)
    (simp_all add: update_root_data_no_registration update_child_list_no_registration)

lemma run_no_registration:
  "filter (\<lambda>c. \<not> is_fetch c) (zk_calls (run decode call evs w)) =
   filter (\<lambda>c. \<not> is_fetch c) (zk_calls w)"
  by (induction evs arbitrary: w) (simp_all add: fire_no_registration)

lemma count_list_filter: "P x \<Longrightarrow> count_list (filter P xs) x = count_list xs x"
  by (induction xs) auto

lemma Watcher_init_calls:
  "zk_calls (snd (Watcher_init z p cb wc)) =
     [DataWatch p, Exists p] @
     (case zk_exists z p of Inr (Some s) \<Rightarrow> if wc then [ChildrenWatch p] else [] | _ \<Rightarrow> [])"
  by (simp add: Watcher_init_def Watcher_begin_def Let_def split: sum.splits option.splits)

subsection \<open>The concrete node\<close>

lemma foo_zk_simps [simp]:
  "zk_exists foo_zk ''/services/foo'' = Inr (Some 5)"
  "zk_retry foo_zk (zk_get foo_zk) ''/services/foo'' = Inr (Some ''env=prod'', 6)"
  "zk_retry foo_zk (zk_get foo_zk) ''/services/foo/node1:22'' = Inr (Some ''w=1'', 1)"
  "zk_retry foo_zk (zk_get foo_zk) ''/services/foo/node2:22'' = Inr (Some ''w=2'', 1)"
  "zk_retry foo_zk (zk_get foo_zk) ''/services/foo/node3:80'' = Inr (Some ''w=3'', 1)"
  by (simp_all add: foo_zk_def)

lemma foo_watcher_calls:
  "zk_calls foo_watcher =
     [DataWatch ''/services/foo'', Exists ''/services/foo'', ChildrenWatch ''/services/foo'']"
  by (simp add: foo_watcher_def Watcher_init_def Watcher_begin_def Let_def zk_called_def log_def)

lemma foo_watcher_fields [simp]:
  "self_path foo_watcher = ''/services/foo''"
  "self_children foo_watcher = 0"
  "next_addr foo_watcher = 1"
  "self_data foo_watcher = None"
  "self_stat foo_watcher = None"
  "self_callbacks foo_watcher = []"
  "self_state foo_watcher = True"
  "invoked foo_watcher = []"
  "heap foo_watcher = (\<lambda>_. Map.empty)"
  by (simp_all add: foo_watcher_def)

lemma foo_watcher_with_children_fields:
  "self_path foo_watcher_with_children = ''/services/foo''"
  "self_children foo_watcher_with_children = Suc 0"
  "next_addr foo_watcher_with_children = 2"
  "heap foo_watcher_with_children (Suc 0) = [''node1:22'' \<mapsto> Some ''w=1'', ''node2:22'' \<mapsto> Some ''w=2'']"
  "zk_calls foo_watcher_with_children =
     [DataWatch ''/services/foo'', Exists ''/services/foo'', ChildrenWatch ''/services/foo'',
      Retry_get ''/services/foo/node1:22'', Retry_get ''/services/foo/node2:22'']"
  by (simp_all add: foo_watcher_with_children_def update_child_list_unfold Let_def
        foo_watcher_calls plain_decode_def)

section \<open>The claims\<close>

text \<open>
  C1. After a data-change notification that reports the node present, the cached data is the
  decoded payload of the handler's own fetch, but the cached stat is the one the
  notification carried, not the one the fetch returned: the assignment
  \<^verbatim>\<open>self._stat = stat\<close> that ends the handler overwrites what
  \<^verbatim>\<open>data, self._stat = self._zk.retry(self._zk.get, self._path)\<close> stored. Here the
  notification carries version 5 while the fetch returns the payload together with
  version 6; the cache ends with that payload and version 5.
\<close>

theorem data_handler_caches_notified_stat:
  "zk_retry foo_zk (zk_get foo_zk) ''/services/foo'' = Inr (Some ''env=prod'', 6) \<and>
   (let r = update_root_data plain_decode quiet foo_zk None (Some 5) foo_watcher
    in fst r = None \<and>
       data (get (snd r)) = plain_decode (Some ''env=prod'') \<and>
       stat (get (snd r)) = Some 5 \<and>
       stat (get (snd r)) \<noteq> Some 6)"
  by (simp add: update_root_data_def Let_def execute_callbacks_def state_def)

text \<open>
  C2. A child-change notification carries the names \<open>names\<close>, without repetition, and
  every fetch of a child succeeds. Then, whether or not a callback raises afterwards:
  \<^verbatim>\<open>self._children\<close> is bound to a dict other than the one it was bound to, and that old
  dict is unchanged; the keys of the new dict are exactly \<open>names\<close>; each name is mapped
  to the decoded payload that the fetch of its path returned; the handler's calls on the
  client are one \<^verbatim>\<open>retry(get, path/name)\<close> per name, in order, and nothing else, so the
  path of a name is fetched once when the name is reported and not at all otherwise.
\<close>

theorem child_list_replaced_by_fresh_mapping:
  assumes "\<forall>c \<in> set names. \<exists>r. zk_retry z (zk_get z) (self_path w @ ''/'' @ c) = Inr r"
    and "distinct names"
    and "self_children w < next_addr w"
  shows "self_children (snd (update_child_list decode call z names w)) \<noteq> self_children w \<and>
         heap (snd (update_child_list decode call z names w)) (self_children w) =
           heap w (self_children w) \<and>
         dom (heap (snd (update_child_list decode call z names w))
                (children (get (snd (update_child_list decode call z names w))))) = set names \<and>
         (\<forall>c \<in> set names. \<exists>d s.
            zk_retry z (zk_get z) (self_path w @ ''/'' @ c) = Inr (d, s) \<and>
            heap (snd (update_child_list decode call z names w))
              (children (get (snd (update_child_list decode call z names w)))) c =
              Some (decode d)) \<and>
         zk_calls (snd (update_child_list decode call z names w)) =
           zk_calls w @ map (\<lambda>c. Retry_get (self_path w @ ''/'' @ c)) names \<and>
         (\<forall>c. count_list (zk_calls (snd (update_child_list decode call z names w)))
                 (Retry_get (self_path w @ ''/'' @ c)) =
               count_list (zk_calls w) (Retry_get (self_path w @ ''/'' @ c)) +
                 (if c \<in> set names then 1 else 0))"
proof -
  let ?a = "next_addr w"
  let ?w1 = "(log DEBUG ''New children: %s'' w)
               \<lparr>heap := (heap w)(?a := Map.empty), next_addr := Suc ?a\<rparr>"
  let ?r = "for_children decode z ?a names ?w1"
  let ?w' = "snd (update_child_list decode call z names w)"
  have "\<forall>c \<in> set names. \<exists>r. zk_retry z (zk_get z) (self_path ?w1 @ ''/'' @ c) = Inr r"
    using assms(1) by simp
  from for_children_ok [OF this, of decode ?a]
  have ok: "fst ?r = None"
    and calls: "zk_calls (snd ?r) = zk_calls w @ map (\<lambda>c. Retry_get (self_path w @ ''/'' @ c)) names"
    and cells: "\<And>c. heap (snd ?r) ?a c =
      (if c \<in> set names
       then Some (decode (fst (projr (zk_retry z (zk_get z) (self_path w @ ''/'' @ c)))))
       else None)"
    by simp_all
  have w': "?w' = snd (execute_callbacks call ((snd ?r)\<lparr>self_children := ?a\<rparr>))"
    using ok by (simp add: update_child_list_unfold Let_def)
  have ch: "self_children ?w' = ?a" by (simp add: w')
  have hp: "heap ?w' = heap (snd ?r)" by (simp add: w')
  have cl: "zk_calls ?w' = zk_calls w @ map (\<lambda>c. Retry_get (self_path w @ ''/'' @ c)) names"
    by (simp add: w' calls)
  have 1: "self_children ?w' \<noteq> self_children w" using assms(3) ch by simp
  have 2: "heap ?w' (self_children w) = heap w (self_children w)"
    using assms(3) by (simp add: update_child_list_heap_old)
  have 3: "dom (heap ?w' (children (get ?w'))) = set names"
    by (auto simp add: ch hp cells dom_def)
  have 4: "\<forall>c \<in> set names. \<exists>d s.
      zk_retry z (zk_get z) (self_path w @ ''/'' @ c) = Inr (d, s) \<and>
      heap ?w' (children (get ?w')) c = Some (decode d)"
  proof
    fix c assume c: "c \<in> set names"
    with assms(1) obtain r where "zk_retry z (zk_get z) (self_path w @ ''/'' @ c) = Inr r"
      by auto
    then obtain d s where f: "zk_retry z (zk_get z) (self_path w @ ''/'' @ c) = Inr (d, s)"
      by (cases r) simp
    then show "\<exists>d s. zk_retry z (zk_get z) (self_path w @ ''/'' @ c) = Inr (d, s) \<and>
      heap ?w' (children (get ?w')) c = Some (decode d)"
      using c by (simp add: ch hp cells)
  qed
  have 6: "\<forall>c. count_list (zk_calls ?w') (Retry_get (self_path w @ ''/'' @ c)) =
      count_list (zk_calls w) (Retry_get (self_path w @ ''/'' @ c)) +
        (if c \<in> set names then 1 else 0)"
    using count_list_map_inj [OF inj_fullpath assms(2), of "self_path w"]
    by (simp add: cl)
  from 1 2 3 4 cl 6 show ?thesis by blast
qed

theorem child_list_replaced_by_fresh_mapping_witness:
  "zk_retry foo_zk (zk_get foo_zk) ''/services/foo/node1:22'' = Inr (Some ''w=1'', 1) \<and>
   zk_retry foo_zk (zk_get foo_zk) ''/services/foo/node3:80'' = Inr (Some ''w=3'', 1) \<and>
   distinct [''node1:22'', ''node3:80''] \<and>
   self_children foo_watcher_with_children < next_addr foo_watcher_with_children \<and>
   (let w' = snd (update_child_list plain_decode quiet foo_zk [''node1:22'', ''node3:80'']
                    foo_watcher_with_children);
        m = heap w' (children (get w'))
    in dom m = {''node1:22'', ''node3:80''} \<and>
       m ''node1:22'' = Some (Some ''w=1'') \<and>
       m ''node3:80'' = Some (Some ''w=3'') \<and>
       m ''node2:22'' = None \<and>
       heap w' (self_children foo_watcher_with_children) =
         [''node1:22'' \<mapsto> Some ''w=1'', ''node2:22'' \<mapsto> Some ''w=2''] \<and>
       zk_calls w' = zk_calls foo_watcher_with_children @
         [Retry_get ''/services/foo/node1:22'', Retry_get ''/services/foo/node3:80''])"
proof -
  note f = foo_watcher_with_children_fields
  have h1: "\<forall>c \<in> set [''node1:22'', ''node3:80'']. \<exists>r.
      zk_retry foo_zk (zk_get foo_zk) (self_path foo_watcher_with_children @ ''/'' @ c) = Inr r"
    by (simp add: f)
  have h2: "distinct [''node1:22'', ''node3:80'']" by simp
  have h3: "self_children foo_watcher_with_children < next_addr foo_watcher_with_children"
    by (simp add: f)
  let ?w' = "snd (update_child_list plain_decode quiet foo_zk [''node1:22'', ''node3:80'']
                    foo_watcher_with_children)"
  let ?m = "heap ?w' (children (get ?w'))"
  from child_list_replaced_by_fresh_mapping [OF h1 h2 h3, of plain_decode quiet]
  have old: "heap ?w' (self_children foo_watcher_with_children) =
        heap foo_watcher_with_children (self_children foo_watcher_with_children)"
    and d: "dom ?m = set [''node1:22'', ''node3:80'']"
    and v: "\<forall>c \<in> set [''node1:22'', ''node3:80'']. \<exists>d s.
        zk_retry foo_zk (zk_get foo_zk) (self_path foo_watcher_with_children @ ''/'' @ c)
          = Inr (d, s) \<and> ?m c = Some (plain_decode d)"
    and c: "zk_calls ?w' = zk_calls foo_watcher_with_children @
        map (\<lambda>c. Retry_get (self_path foo_watcher_with_children @ ''/'' @ c))
          [''node1:22'', ''node3:80'']"
    by blast+
  from v have v1: "?m ''node1:22'' = Some (Some ''w=1'')" and v3: "?m ''node3:80'' = Some (Some ''w=3'')"
    by (simp_all add: f plain_decode_def)
  from d have "''node2:22'' \<notin> dom ?m" by simp
  then have v2: "?m ''node2:22'' = None" by (simp only: domIff not_not)
  from d have d': "dom ?m = {''node1:22'', ''node3:80''}" by simp
  from old have old': "heap ?w' (self_children foo_watcher_with_children) =
      [''node1:22'' \<mapsto> Some ''w=1'', ''node2:22'' \<mapsto> Some ''w=2'']"
    by (simp add: f)
  from c have c': "zk_calls ?w' = zk_calls foo_watcher_with_children @
      [Retry_get ''/services/foo/node1:22'', Retry_get ''/services/foo/node3:80'']"
    by (simp add: f(1))
  from h2 h3 d' v1 v2 v3 old' c' show ?thesis by (simp add: Let_def)
qed

text \<open>
  C3. Let \<^verbatim>\<open>funcs.decode\<close> map None to None, and let every notification that reports
  the node missing carry no data (as the source's comment says of the client). Then in every
  state a watcher reaches from its construction by any events, a snapshot whose stat is
  absent has its data absent.
\<close>

theorem absent_metadata_implies_absent_data:
  assumes "decode None = None" and "\<forall>ev \<in> set evs. absent_node_sends_no_data ev"
  shows "stat (get (run decode call evs (snd (Watcher_init z p cb wc)))) = None \<longrightarrow>
         data (get (run decode call evs (snd (Watcher_init z p cb wc)))) = None"
  using run_keeps_absence [where decode = decode, OF assms, of "snd (Watcher_init z p cb wc)" call]
  by simp

theorem absent_metadata_implies_absent_data_witness:
  "plain_decode None = None \<and>
   absent_node_sends_no_data (Data_change foo_zk None (Some 5) :: (nat, nat) event) \<and>
   absent_node_sends_no_data (Data_change foo_zk None None :: (nat, nat) event) \<and>
   stat (get (run plain_decode quiet
          [Data_change foo_zk None (Some 5), Data_change foo_zk None None] foo_watcher)) = None \<and>
   data (get (run plain_decode quiet
          [Data_change foo_zk None (Some 5), Data_change foo_zk None None] foo_watcher)) = None"
proof -
  let ?evs = "[Data_change foo_zk None (Some 5), Data_change foo_zk None None] :: (nat, nat) event list"
  have h1: "plain_decode None = None" by (simp add: plain_decode_def)
  have h2: "\<forall>ev \<in> set ?evs. absent_node_sends_no_data ev" by simp
  have s: "stat (get (run plain_decode quiet ?evs foo_watcher)) = None"
    by (simp add: foo_watcher_calls update_root_data_def Let_def)
  from absent_metadata_implies_absent_data [where decode = plain_decode, OF h1 h2,
      of quiet foo_zk "''/services/foo''" None True] s
  have "data (get (run plain_decode quiet ?evs foo_watcher)) = None"
    by (simp add: foo_watcher_def)
  with h1 s show ?thesis by simp
qed

text \<open>
  C4. \<^verbatim>\<open>add_callback\<close> of a callback that is not registered appends it and calls it once
  with the current snapshot, whatever the activity flag is; of a registered callback it
  only logs the warning. Registering the same callback twice in a row therefore leaves it
  once in the registry and has called it once.
\<close>

theorem add_callback_idempotent:
  "(cb \<notin> set (self_callbacks w) \<longrightarrow>
      add_callback call cb (w\<lparr>self_state := active\<rparr>) =
        (call cb (get w),
         w\<lparr>self_state := active, self_callbacks := self_callbacks w @ [cb],
           invoked := invoked w @ [(cb, get w)]\<rparr>)) \<and>
   (cb \<in> set (self_callbacks w) \<longrightarrow>
      add_callback call cb w =
        (None, w\<lparr>logged := logged w @
           [(WARNING, ''Callback [%s] already exists. Not triggering again.'')]\<rparr>)) \<and>
   (cb \<notin> set (self_callbacks w) \<longrightarrow>
      self_callbacks (snd (add_callback call cb (snd (add_callback call cb w)))) =
        self_callbacks w @ [cb] \<and>
      count_list (self_callbacks (snd (add_callback call cb (snd (add_callback call cb w))))) cb
        = 1 \<and>
      invoked (snd (add_callback call cb (snd (add_callback call cb w)))) =
        invoked w @ [(cb, get w)])"
  by (simp add: add_callback_def callback_exists_iff invoke_def log_def get_def)

theorem add_callback_idempotent_witness:
  "(7::nat) \<notin> set (self_callbacks foo_watcher) \<and>
   add_callback quiet 7 (stop foo_watcher) =
     (None, (stop foo_watcher)\<lparr>self_callbacks := [7], invoked := [(7, get foo_watcher)]\<rparr>) \<and>
   self_callbacks (snd (add_callback quiet 7 (snd (add_callback quiet 7 foo_watcher)))) = [7] \<and>
   invoked (snd (add_callback quiet 7 (snd (add_callback quiet 7 foo_watcher)))) =
     [(7, get foo_watcher)]"
proof -
  have h: "(7::nat) \<notin> set (self_callbacks foo_watcher)"
    by (simp add: foo_watcher_def)
  have i: "invoked foo_watcher = []" "self_callbacks foo_watcher = []"
    by (simp_all add: foo_watcher_def)
  from add_callback_idempotent [of 7 foo_watcher quiet False] h i
  show ?thesis by (simp add: stop_def quiet_def)
qed

text \<open>
  C5. From \<^verbatim>\<open>stop()\<close> on, any sequence of data-change and child-change notifications
  adds no callback invocation, yet leaves the cache (the snapshot and the dicts of the store)
  exactly as the same notifications leave it on the watcher that was not stopped; the flag
  stays inactive meanwhile. A \<^verbatim>\<open>start()\<close> after them sets the flag and adds no
  invocation. What adds one is what follows \<^verbatim>\<open>start()\<close>: a data-change notification
  (of a missing node, or of a present node whose fetch succeeds) and a child-change
  notification (whose fetches succeed) each call the registered callbacks in registration
  order with the updated snapshot, up to the first callback that raises; and
  \<^verbatim>\<open>add_callback\<close> of a new callback calls it.
\<close>

theorem paused_watcher_updates_cache_silently:
  assumes "\<forall>ev \<in> set evs. is_notification ev"
  shows "invoked (run decode call evs (stop w)) = invoked w \<and>
         get (run decode call evs (stop w)) = get (run decode call evs w) \<and>
         heap (run decode call evs (stop w)) = heap (run decode call evs w) \<and>
         invoked (start (run decode call evs (stop w))) = invoked w \<and>
         \<not> state (stop w) \<and>
         \<not> state (run decode call evs (stop w)) \<and>
         state (start (run decode call evs (stop w))) \<and>
         (let s = start (run decode call evs (stop w)) in
            (let r = snd (update_root_data decode call z d None s)
             in invoked r = invoked w @
                  map (\<lambda>cb. (cb, get r)) (until_raise call (get r) (self_callbacks w))) \<and>
            (\<forall>d' s'. zk_retry z (zk_get z) (self_path w) = Inr (d', s') \<longrightarrow>
               (let r = snd (update_root_data decode call z d (Some st) s)
                in invoked r = invoked w @
                     map (\<lambda>cb. (cb, get r)) (until_raise call (get r) (self_callbacks w)))) \<and>
            ((\<forall>c \<in> set names. \<exists>r. zk_retry z (zk_get z) (self_path w @ ''/'' @ c) = Inr r) \<longrightarrow>
               (let r = snd (update_child_list decode call z names s)
                in invoked r = invoked w @
                     map (\<lambda>cb. (cb, get r)) (until_raise call (get r) (self_callbacks w)))) \<and>
            (cb \<notin> set (self_callbacks w) \<longrightarrow>
               invoked (snd (add_callback call cb s)) = invoked w @ [(cb, get s)]))"
proof -
  let ?p = "run decode call evs (stop w)"
  let ?s = "start ?p"
  have i: "invoked ?p = invoked w"
    using run_paused [OF assms, of "stop w" decode call] by simp
  have sc: "same_cache ?p (run decode call evs w)"
    using run_same_cache [OF assms same_cache_stop] .
  have g: "get ?p = get (run decode call evs w)" by (rule same_cache_get [OF sc])
  have h: "heap ?p = heap (run decode call evs w)" using sc by (simp add: same_cache_def)
  have st0: "\<not> state (stop w)" by (simp add: state_def)
  have st1: "\<not> state ?p"
    using run_notifications_state [OF assms, of decode call "stop w"] by (simp add: state_def)
  have st2: "state ?s" by (simp add: state_def)
  have act: "self_state ?s" by simp
  have iv: "invoked ?s = invoked w" using i by simp
  have cs: "self_callbacks ?s = self_callbacks w"
    using run_notifications_callbacks [OF assms, of decode call "stop w"] by simp
  have ps: "self_path ?s = self_path w" by simp
  have a: "invoked (snd (update_root_data decode call z d None ?s)) = invoked w @
      map (\<lambda>cb. (cb, get (snd (update_root_data decode call z d None ?s))))
        (until_raise call (get (snd (update_root_data decode call z d None ?s))) (self_callbacks w))"
    using update_root_data_dispatch_missing [OF act, of decode call z d] by (simp only: iv cs)
  have b: "\<forall>d' s'. zk_retry z (zk_get z) (self_path w) = Inr (d', s') \<longrightarrow>
      invoked (snd (update_root_data decode call z d (Some st) ?s)) = invoked w @
        map (\<lambda>cb. (cb, get (snd (update_root_data decode call z d (Some st) ?s))))
          (until_raise call (get (snd (update_root_data decode call z d (Some st) ?s)))
             (self_callbacks w))"
  proof (intro allI impI)
    fix d' s' assume "zk_retry z (zk_get z) (self_path w) = Inr (d', s')"
    then have f: "zk_retry z (zk_get z) (self_path ?s) = Inr (d', s')" by (simp only: ps)
    from update_root_data_dispatch_present [OF act f, of decode call d st]
    show "invoked (snd (update_root_data decode call z d (Some st) ?s)) = invoked w @
        map (\<lambda>cb. (cb, get (snd (update_root_data decode call z d (Some st) ?s))))
          (until_raise call (get (snd (update_root_data decode call z d (Some st) ?s)))
             (self_callbacks w))"
      by (simp only: iv cs)
  qed
  have c: "(\<forall>c \<in> set names. \<exists>r. zk_retry z (zk_get z) (self_path w @ ''/'' @ c) = Inr r) \<longrightarrow>
      invoked (snd (update_child_list decode call z names ?s)) = invoked w @
        map (\<lambda>cb. (cb, get (snd (update_child_list decode call z names ?s))))
          (until_raise call (get (snd (update_child_list decode call z names ?s)))
             (self_callbacks w))"
  proof
    assume "\<forall>c \<in> set names. \<exists>r. zk_retry z (zk_get z) (self_path w @ ''/'' @ c) = Inr r"
    then have f: "\<forall>c \<in> set names. \<exists>r. zk_retry z (zk_get z) (self_path ?s @ ''/'' @ c) = Inr r"
      by (simp only: ps)
    from update_child_list_dispatch [OF act f, of decode call]
    show "invoked (snd (update_child_list decode call z names ?s)) = invoked w @
        map (\<lambda>cb. (cb, get (snd (update_child_list decode call z names ?s))))
          (until_raise call (get (snd (update_child_list decode call z names ?s)))
             (self_callbacks w))"
      by (simp only: iv cs)
  qed
  have e: "cb \<notin> set (self_callbacks w) \<longrightarrow>
      invoked (snd (add_callback call cb ?s)) = invoked w @ [(cb, get ?s)]"
    using iv cs by (simp add: add_callback_def callback_exists_iff invoke_def del: get_start)
  from i g h iv st0 st1 st2 a b c e show ?thesis unfolding Let_def by blast
qed

theorem paused_watcher_updates_cache_silently_witness:
  "is_notification (Data_change foo_zk None (Some 5) :: (nat, nat) event) \<and>
   is_notification (Child_change foo_zk [''node1:22'', ''node2:22''] :: (nat, nat) event) \<and>
   (let w = snd (add_callback quiet 7 foo_watcher);
        w' = run plain_decode quiet
               [Data_change foo_zk None (Some 5), Child_change foo_zk [''node1:22'', ''node2:22'']]
               (stop w);
        r = snd (update_root_data plain_decode quiet foo_zk None None (start w'))
    in invoked w = [(7, get foo_watcher)] \<and>
       invoked w' = [(7, get foo_watcher)] \<and>
       invoked (start w') = [(7, get foo_watcher)] \<and>
       state (start w') \<and>
       data (get w') = Some ''env=prod'' \<and>
       heap w' (children (get w')) =
         [''node1:22'' \<mapsto> Some ''w=1'', ''node2:22'' \<mapsto> Some ''w=2''] \<and>
       invoked r =
         [(7, get foo_watcher),
          (7, \<lparr>stat = None, path = ''/services/foo'', data = None, children = Suc 0\<rparr>)] \<and>
       8 \<notin> set (self_callbacks w) \<and>
       invoked (snd (add_callback quiet 8 (start w'))) =
         [(7, get foo_watcher), (8, get (start w'))])"
proof -
  let ?evs = "[Data_change foo_zk None (Some 5), Child_change foo_zk [''node1:22'', ''node2:22'']]
                :: (nat, nat) event list"
  let ?w = "snd (add_callback quiet 7 foo_watcher)"
  let ?w' = "run plain_decode quiet ?evs (stop ?w)"
  let ?r = "snd (update_root_data plain_decode quiet foo_zk None None (start ?w'))"
  have h: "\<forall>ev \<in> set ?evs. is_notification ev" by simp
  have i: "invoked ?w = [(7, get foo_watcher)]"
    by (simp add: add_callback_def invoke_def get_def)
  have cbs: "self_callbacks ?w = [7]"
    by (simp add: add_callback_def invoke_def)
  have k: "8 \<notin> set (self_callbacks ?w)" by (simp add: cbs)
  note t = paused_watcher_updates_cache_silently
    [where decode = plain_decode and call = quiet and w = ?w and z = foo_zk and d = None
       and st = 5 and names = "[]" and cb = 8, OF h, unfolded Let_def]
  from t have "invoked ?w' = invoked ?w" and "invoked (start ?w') = invoked ?w"
    and st: "state (start ?w')"
    and "invoked ?r = invoked ?w @
      map (\<lambda>cb. (cb, get ?r)) (until_raise quiet (get ?r) (self_callbacks ?w))"
    and "8 \<notin> set (self_callbacks ?w) \<longrightarrow>
      invoked (snd (add_callback quiet 8 (start ?w'))) = invoked ?w @ [(8, get (start ?w'))]"
    by blast+
  with i k have a: "invoked ?w' = [(7, get foo_watcher)]"
    and b: "invoked (start ?w') = [(7, get foo_watcher)]"
    and r0: "invoked ?r = [(7, get foo_watcher)] @
      map (\<lambda>cb. (cb, get ?r)) (until_raise quiet (get ?r) (self_callbacks ?w))"
    and e: "invoked (snd (add_callback quiet 8 (start ?w'))) =
      [(7, get foo_watcher)] @ [(8, get (start ?w'))]"
    by (simp_all only: simp_thms)
  have c: "data (get ?w') = Some ''env=prod''"
    by (simp add: foo_watcher_calls update_root_data_def Let_def plain_decode_def)
  have d: "heap ?w' (children (get ?w')) =
      [''node1:22'' \<mapsto> Some ''w=1'', ''node2:22'' \<mapsto> Some ''w=2'']"
    by (simp add: foo_watcher_calls update_root_data_def update_child_list_unfold Let_def
          plain_decode_def)
  have gr: "get ?r = \<lparr>stat = None, path = ''/services/foo'', data = None, children = Suc 0\<rparr>"
    by (simp add: get_def foo_watcher_calls update_root_data_def update_child_list_unfold
          Let_def plain_decode_def)
  have r: "invoked ?r = [(7, get foo_watcher),
      (7, \<lparr>stat = None, path = ''/services/foo'', data = None, children = Suc 0\<rparr>)]"
    unfolding r0 gr cbs by (simp add: quiet_def)
  have e': "invoked (snd (add_callback quiet 8 (start ?w'))) =
      [(7, get foo_watcher), (8, get (start ?w'))]"
    unfolding e by simp
  have n: "is_notification (Data_change foo_zk None (Some 5) :: (nat, nat) event)"
    "is_notification (Child_change foo_zk [''node1:22'', ''node2:22''] :: (nat, nat) event)"
    by simp_all
  from n i a b st c d r k e' show ?thesis unfolding Let_def by blast
qed

text \<open>
  C6. The constructor registers the data watch in every case. When it returns, the children
  watch has been registered exactly if \<^verbatim>\<open>exists\<close> reported the node and
  \<^verbatim>\<open>watch_children\<close> is true. Whatever events follow, with whatever the client answers
  then, the calls on the client other than fetches stay the ones of the constructor:
  \<^verbatim>\<open>exists\<close> has been asked once, and the children watch is registered afterwards
  exactly if it was at construction.
\<close>

theorem child_watch_decided_once_at_construction:
  fixes decode :: "string option \<Rightarrow> 'd option"
    and call :: "'cb \<Rightarrow> ('d, 's) snapshot \<Rightarrow> exn option"
  shows
  "(let w = snd (Watcher_init z p cb wc); w' = run decode call evs w in
    DataWatch p \<in> set (zk_calls w) \<and>
    (fst (Watcher_init z p cb wc :: exn option \<times> ('cb, 'd, 's) watcher) = None \<longrightarrow>
       (ChildrenWatch p \<in> set (zk_calls w) \<longleftrightarrow> (\<exists>s. zk_exists z p = Inr (Some s)) \<and> wc) \<and>
       filter (\<lambda>c. \<not> is_fetch c) (zk_calls w') = filter (\<lambda>c. \<not> is_fetch c) (zk_calls w) \<and>
       count_list (zk_calls w') (Exists p) = 1 \<and>
       (ChildrenWatch p \<in> set (zk_calls w') \<longleftrightarrow> ChildrenWatch p \<in> set (zk_calls w))))"
proof -
  define w :: "('cb, 'd, 's) watcher" where "w = snd (Watcher_init z p cb wc)"
  let ?w' = "run decode call evs w"
  let ?keep = "\<lambda>c. \<not> is_fetch c"
  have c: "zk_calls w =
     [DataWatch p, Exists p] @
     (case zk_exists z p of Inr (Some s) \<Rightarrow> if wc then [ChildrenWatch p] else [] | _ \<Rightarrow> [])"
    unfolding w_def by (rule Watcher_init_calls)
  have f: "filter ?keep (zk_calls ?w') = filter ?keep (zk_calls w)"
    by (rule run_no_registration)
  have 1: "DataWatch p \<in> set (zk_calls w)" by (simp add: c)
  have 2: "ChildrenWatch p \<in> set (zk_calls w) \<longleftrightarrow> (\<exists>s. zk_exists z p = Inr (Some s)) \<and> wc"
    by (cases "zk_exists z p") (auto simp add: c split: option.splits)
  have "count_list (zk_calls ?w') (Exists p) = count_list (filter ?keep (zk_calls ?w')) (Exists p)"
    by (simp add: count_list_filter)
  also have "\<dots> = count_list (zk_calls w) (Exists p)"
    by (simp add: f count_list_filter)
  also have "\<dots> = 1" by (simp add: c split: sum.splits option.splits)
  finally have 3: "count_list (zk_calls ?w') (Exists p) = 1" .
  have "ChildrenWatch p \<in> set (zk_calls ?w') \<longleftrightarrow> ChildrenWatch p \<in> set (filter ?keep (zk_calls ?w'))"
    by simp
  also have "\<dots> \<longleftrightarrow> ChildrenWatch p \<in> set (zk_calls w)"
    by (simp add: f)
  finally have 4: "ChildrenWatch p \<in> set (zk_calls ?w') \<longleftrightarrow> ChildrenWatch p \<in> set (zk_calls w)" .
  from 1 2 f 3 4 show ?thesis unfolding Let_def w_def by blast
qed

theorem child_watch_decided_once_at_construction_witness:
  "fst (Watcher_init foo_zk ''/services/foo'' None True
          :: exn option \<times> (nat, string, nat) watcher) = None \<and>
   ChildrenWatch ''/services/foo'' \<in> set (zk_calls foo_watcher) \<and>
   count_list (zk_calls (run plain_decode quiet
       [Data_change foo_zk None (Some 5), Child_change foo_zk [''node1:22'', ''node2:22'']]
       foo_watcher)) (Exists ''/services/foo'') = 1 \<and>
   fst (Watcher_init foo_zk ''/services/new'' None True
          :: exn option \<times> (nat, string, nat) watcher) = None \<and>
   ChildrenWatch ''/services/new'' \<notin> set (zk_calls (run plain_decode quiet
       [Data_change foo_zk None (Some 1), Child_change foo_zk [''node1:22'']]
       (snd (Watcher_init foo_zk ''/services/new'' None True))))"
proof -
  let ?evs = "[Data_change foo_zk None (Some 5), Child_change foo_zk [''node1:22'', ''node2:22'']]
                :: (nat, nat) event list"
  let ?evs' = "[Data_change foo_zk None (Some 1), Child_change foo_zk [''node1:22'']]
                :: (nat, nat) event list"
  have h: "fst (Watcher_init foo_zk ''/services/foo'' None True
          :: exn option \<times> (nat, string, nat) watcher) = None"
    by (simp add: Watcher_init_def Watcher_begin_def Let_def)
  have h': "fst (Watcher_init foo_zk ''/services/new'' None True
          :: exn option \<times> (nat, string, nat) watcher) = None"
    by (simp add: Watcher_init_def Watcher_begin_def Let_def foo_zk_def)
  have e: "zk_exists foo_zk ''/services/new'' = Inr None" by (simp add: foo_zk_def)
  from child_watch_decided_once_at_construction
         [where p = "''/services/foo''" and z = foo_zk and cb = None and wc = True
            and decode = plain_decode and call = quiet and evs = ?evs] h
  have a: "ChildrenWatch ''/services/foo'' \<in> set (zk_calls foo_watcher)"
    and b: "count_list (zk_calls (run plain_decode quiet ?evs foo_watcher))
              (Exists ''/services/foo'') = 1"
    by (simp_all add: Let_def foo_watcher_def del: run.simps)
  from child_watch_decided_once_at_construction
         [where p = "''/services/new''" and z = foo_zk and cb = None and wc = True
            and decode = plain_decode and call = quiet and evs = ?evs'] h' e
  have c: "ChildrenWatch ''/services/new'' \<notin> set (zk_calls (run plain_decode quiet ?evs'
       (snd (Watcher_init foo_zk ''/services/new'' None True))))"
    by (simp add: Let_def del: run.simps)
  from h h' a b c show ?thesis by blast
qed

text \<open>
  C7. When \<^verbatim>\<open>exists\<close> raises, the constructor raises that same exception (the failure
  the specification calls a ConstructionError), and \<^verbatim>\<open>exists\<close> has been called once, not
  through \<^verbatim>\<open>retry\<close>: the client has seen the data watch registration and that one call.
\<close>

theorem existence_check_failure_aborts_construction:
  "zk_exists z p = Inl e \<Longrightarrow>
     (let r = Watcher_init z p cb wc
      in fst r = Some e \<and> zk_calls (snd r) = [DataWatch p, Exists p])"
  by (simp add: Watcher_init_def Watcher_begin_def Let_def)

theorem existence_check_failure_aborts_construction_witness:
  "zk_exists down_zk ''/services/foo'' = Inl ''ConnectionLoss'' \<and>
   fst (Watcher_init down_zk ''/services/foo'' (Some 7) True
          :: exn option \<times> (nat, string, nat) watcher) = Some ''ConnectionLoss'' \<and>
   zk_calls (snd (Watcher_init down_zk ''/services/foo'' (Some 7) True
          :: exn option \<times> (nat, string, nat) watcher)) =
     [DataWatch ''/services/foo'', Exists ''/services/foo'']"
proof -
  have h: "zk_exists down_zk ''/services/foo'' = Inl ''ConnectionLoss''"
    by (simp add: down_zk_def)
  from existence_check_failure_aborts_construction [OF h, of "Some 7" True] h
  show ?thesis by (simp add: Let_def)
qed

text \<open>
  C8. The two handlers write disjoint parts of the cache. The data handler leaves
  \<^verbatim>\<open>self._children\<close> bound to the same dict and changes no dict of the store, whatever the
  notification reports (node present or missing) and whether or not the fetch or a callback
  raises; the child handler leaves \<^verbatim>\<open>self._data\<close>, \<^verbatim>\<open>self._stat\<close> and \<^verbatim>\<open>self._path\<close> as
  they were.
\<close>

theorem handlers_write_disjoint_fields:
  "self_children (snd (update_root_data decode call z d st w)) = self_children w \<and>
   heap (snd (update_root_data decode call z d st w)) = heap w \<and>
   self_data (snd (update_child_list decode call z names w)) = self_data w \<and>
   self_stat (snd (update_child_list decode call z names w)) = self_stat w \<and>
   self_path (snd (update_child_list decode call z names w)) = self_path w"
  by simp

text \<open>
  C9. \<^verbatim>\<open>get()\<close> reads four attributes and changes none: it is a function of the object.
  The \<open>stat\<close>, \<open>path\<close> and \<open>data\<close> slots of the dict it returns hold values; the
  \<open>children\<close> slot holds the reference to the dict of the cache, which is not copied. For
  a snapshot taken in any state reached from construction, the dict behind that reference
  has the same contents after any later events: the child handler fills a new dict and
  rebinds \<^verbatim>\<open>self._children\<close>, and nothing writes into a dict that was handed out.
\<close>

theorem returned_snapshot_is_stable:
  "heap (run decode call later (run decode call evs (snd (Watcher_init z p cb wc))))
       (children (get (run decode call evs (snd (Watcher_init z p cb wc))))) =
   heap (run decode call evs (snd (Watcher_init z p cb wc)))
       (children (get (run decode call evs (snd (Watcher_init z p cb wc)))))"
proof -
  let ?w = "run decode call evs (snd (Watcher_init z p cb wc))"
  have "self_children (snd (Watcher_init z p cb wc)) < next_addr (snd (Watcher_init z p cb wc))"
    by simp
  then have "self_children ?w < next_addr ?w" by (rule run_children_allocated)
  then show ?thesis by (simp add: run_heap_old)
qed

text \<open>
  C10. The constructor puts its callback into the registry and calls nothing. The first call
  of that callback comes from a handler: a data-change notification delivered to the new
  watcher calls it with the updated snapshot. \<^verbatim>\<open>add_callback\<close> with the same callback on
  a watcher constructed without one calls it at once, with the still empty snapshot.
\<close>

theorem constructor_callback_is_not_invoked:
  fixes decode :: "string option \<Rightarrow> 'd option"
    and call :: "'cb \<Rightarrow> ('d, 's) snapshot \<Rightarrow> exn option"
  shows
  "(let w = snd (Watcher_init z p (Some cb) wc)
    in self_callbacks w = [cb] \<and> invoked w = [] \<and>
       invoked (snd (update_root_data decode call z' d None w)) =
         [(cb, \<lparr>stat = None, path = p, data = decode d, children = 0\<rparr>)]) \<and>
   invoked (snd (add_callback call cb (snd (Watcher_init z p None wc)))) =
     [(cb, \<lparr>stat = None, path = p, data = None, children = 0\<rparr>)]"
  by (simp add: add_callback_def invoke_def get_def update_root_data_def Let_def
        execute_callbacks_def state_def split: option.splits)

end
